theory Spec2Isabelle
  imports Complex_Main "HOL-Library.Multiset"
begin

section \<open>Strings and exceptions\<close>

text \<open>
  A Python \<open>str\<close> is a sequence of Unicode code points, and the source inspects code
  points up to U+009F and counts characters with \<open>len\<close>. A string is therefore modelled
  as the list of its code points.
\<close>

type_synonym pychar = nat
type_synonym pystr = "pychar list"

definition of_ascii :: "string \<Rightarrow> pystr" where
  "of_ascii s = map of_char s"

text \<open>Every \<open>except Exception\<close> of the source catches any exception; one value stands for all.\<close>

datatype exn = Exception

section \<open>The parser selector (\<open>pdf_parser/unified_parser.py\<close>)\<close>

text \<open>
  What the selector reads of a parser object (\<open>TextualParser\<close> or \<open>VisualParser\<close>):
  its \<open>__method__\<close> tag (field \<open>parse_method\<close>), \<open>pages_text\<close> and \<open>raw_text\<close>.
\<close>

record parser =
  parse_method :: string
  pages_text :: "pystr list"
  raw_text :: pystr

text \<open>The character class \<open>[0-9A-Fa-f]\<close>.\<close>

definition is_hex_digit :: "pychar \<Rightarrow> bool" where
  "is_hex_digit c \<longleftrightarrow> (48 \<le> c \<and> c \<le> 57) \<or> (65 \<le> c \<and> c \<le> 70) \<or> (97 \<le> c \<and> c \<le> 102)"

text \<open>
  \<open>re.compile(r"\\x[0-9A-Fa-f]{2}").search(text)\<close>: a backslash (92), the letter x (120)
  and two hexadecimal digits, starting at any position.
\<close>

fun hex_pattern_search :: "pystr \<Rightarrow> bool" where
  "hex_pattern_search (a # b # c # d # rest) =
     ((a = 92 \<and> b = 120 \<and> is_hex_digit c \<and> is_hex_digit d)
      \<or> hex_pattern_search (b # c # d # rest))"
| "hex_pattern_search _ = False"

text \<open>The character class \<open>[\x00-\x08\x0B\x0C\x0E-\x1F\x7F-\x9F]\<close> and its search.\<close>

definition ctrl_class :: "pychar \<Rightarrow> bool" where
  "ctrl_class c \<longleftrightarrow> c \<le> 8 \<or> c = 11 \<or> c = 12 \<or> (14 \<le> c \<and> c \<le> 31) \<or> (127 \<le> c \<and> c \<le> 159)"

definition ctrl_pattern_search :: "pystr \<Rightarrow> bool" where
  "ctrl_pattern_search s = list_ex ctrl_class s"

text \<open>\<open>allowed = {"\n", "\t", "\r"}\<close>\<close>

definition allowed :: "pychar set" where
  "allowed = {10, 9, 13}"

definition has_binary_encoding :: "pystr \<Rightarrow> bool" where
  "has_binary_encoding text =
     (let cleaned = filter (\<lambda>c. c \<notin> allowed) text in
      if hex_pattern_search text then True
      else if ctrl_pattern_search cleaned then True
      else False)"

definition token_threshold :: int where
  "token_threshold = 10"

text \<open>
  \<open>_select_parser\<close>. The two constructor calls are passed as suspended computations
  (\<open>make_textual\<close>, \<open>make_visual\<close>), so that the model shows which of them the selector
  runs: \<open>TextualParser(file=...)\<close> may raise,
  \<open>VisualParser(file=...)\<close> catches its own exceptions. An exception of the native attempt
  is caught and falls through to the OCR parser.
\<close>

definition select_parser ::
    "int \<Rightarrow> (unit \<Rightarrow> exn + parser) \<Rightarrow> (unit \<Rightarrow> parser) \<Rightarrow> parser" where
  "select_parser n_tokens make_textual make_visual =
     (if n_tokens > token_threshold then
        (case make_textual () of
           Inr text_parser \<Rightarrow>
             if \<not> has_binary_encoding (raw_text text_parser) then text_parser
             else make_visual ()
         | Inl e \<Rightarrow> make_visual ())
      else make_visual ())"

text \<open>
  \<open>count_tokens_in_pdf\<close> (\<open>utils/parsing_utils.py\<close>): the tokenizer's \<open>encode\<close> and the
  text layer of each page (\<open>page.extract_text()\<close>, which may be \<open>None\<close>) are the external
  collaborators' answers.
\<close>

fun count_tokens_loop :: "(pystr \<Rightarrow> 'tok list) \<Rightarrow> pystr option list \<Rightarrow> int \<Rightarrow> int" where
  "count_tokens_loop encode [] total_tokens = total_tokens"
| "count_tokens_loop encode (page # pages) total_tokens =
     (let text = (case page of Some t \<Rightarrow> if t = [] then [] else t | None \<Rightarrow> [])
      in count_tokens_loop encode pages (total_tokens + int (length (encode text))))"

definition count_tokens_in_pdf :: "(pystr \<Rightarrow> 'tok list) \<Rightarrow> pystr option list \<Rightarrow> int" where
  "count_tokens_in_pdf encode pages = count_tokens_loop encode pages 0"

text \<open>
  The part of \<open>PdfParser.__init__\<close> that chooses the parser: the token estimate of the
  document's text layer, then the selection.
\<close>

definition pdf_parser_select ::
    "(pystr \<Rightarrow> 'tok list) \<Rightarrow> pystr option list \<Rightarrow> (unit \<Rightarrow> exn + parser) \<Rightarrow> (unit \<Rightarrow> parser)
      \<Rightarrow> int \<times> parser" where
  "pdf_parser_select encode pages make_textual make_visual =
     (let n_tokens = count_tokens_in_pdf encode pages
      in (n_tokens, select_parser n_tokens make_textual make_visual))"

text \<open>
  The two notions the specification names for a corrupted text layer: a hexadecimal
  escape (a backslash, an \<open>x\<close> and two hexadecimal digits, somewhere in the text) and a
  control character (Unicode category Cc: U+0000 to U+001F and U+007F to U+009F).
\<close>

definition contains_hex_escape :: "pystr \<Rightarrow> bool" where
  "contains_hex_escape s \<longleftrightarrow>
     (\<exists>i. i + 3 < length s \<and> s ! i = 92 \<and> s ! (i + 1) = 120
          \<and> is_hex_digit (s ! (i + 2)) \<and> is_hex_digit (s ! (i + 3)))"

definition is_control_char :: "pychar \<Rightarrow> bool" where
  "is_control_char c \<longleftrightarrow> c \<le> 31 \<or> (127 \<le> c \<and> c \<le> 159)"

definition corrupted_text :: "pystr \<Rightarrow> bool" where
  "corrupted_text s \<longleftrightarrow>
     contains_hex_escape s \<or> (\<exists>c. c \<in> set s \<and> is_control_char c \<and> c \<notin> {10, 9, 13})"

section \<open>Row and cell grouping (\<open>utils/parsing_utils.py\<close>)\<close>

text \<open>
  A word as the word-extraction collaborator returns it: a dictionary with the keys
  \<open>text\<close>, \<open>x0\<close>, \<open>x1\<close>, \<open>top\<close> and \<open>bottom\<close>. The coordinates are floating-point
  numbers; every such number is a rational, and the model subtracts and compares them
  exactly.
\<close>

record word =
  w_text :: pystr
  x0 :: rat
  x1 :: rat
  w_top :: rat
  bottom :: rat

text \<open>
  The loop of \<open>group_words_into_lines\<close>; its state is \<open>(lines, current_line, current_y)\<close>.
\<close>

fun lines_loop ::
    "rat \<Rightarrow> word list \<Rightarrow> word list list \<times> word list \<times> rat option
      \<Rightarrow> word list list \<times> word list \<times> rat option" where
  "lines_loop vertical_threshold [] st = st"
| "lines_loop vertical_threshold (word # rest) (lines, current_line, current_y) =
     (case current_y of
        None \<Rightarrow>
          lines_loop vertical_threshold rest (lines, current_line @ [word], Some (w_top word))
      | Some cy \<Rightarrow>
          if \<bar>w_top word - cy\<bar> \<le> vertical_threshold
          then lines_loop vertical_threshold rest (lines, current_line @ [word], current_y)
          else lines_loop vertical_threshold rest
                 (lines @ [current_line], [word], Some (w_top word)))"

definition group_words_into_lines :: "word list \<Rightarrow> rat \<Rightarrow> word list list" where
  "group_words_into_lines words vertical_threshold =
     (let words_sorted = sort_key w_top words
      in case lines_loop vertical_threshold words_sorted ([], [], None) of
           (lines, current_line, current_y) \<Rightarrow>
             if current_line \<noteq> [] then lines @ [current_line] else lines)"

text \<open>
  The loop of \<open>group_line_words_into_cells\<close>; its state is
  \<open>(cells, current_cell, current_x)\<close>.
\<close>

fun cells_loop ::
    "rat \<Rightarrow> word list \<Rightarrow> word list list \<times> word list \<times> rat option
      \<Rightarrow> word list list \<times> word list \<times> rat option" where
  "cells_loop horizontal_threshold [] st = st"
| "cells_loop horizontal_threshold (word # rest) (cells, current_cell, current_x) =
     (case current_x of
        None \<Rightarrow>
          cells_loop horizontal_threshold rest (cells, current_cell @ [word], Some (x0 word))
      | Some cx \<Rightarrow>
          if \<bar>x0 word - cx\<bar> \<le> horizontal_threshold
          then cells_loop horizontal_threshold rest (cells, current_cell @ [word], current_x)
          else cells_loop horizontal_threshold rest
                 (cells @ [current_cell], [word], Some (x0 word)))"

definition group_line_words_into_cells :: "word list \<Rightarrow> rat \<Rightarrow> word list list" where
  "group_line_words_into_cells line_words horizontal_threshold =
     (let line_words_sorted = sort_key x0 line_words
      in case cells_loop horizontal_threshold line_words_sorted ([], [], None) of
           (cells, current_cell, current_x) \<Rightarrow>
             if current_cell \<noteq> [] then cells @ [current_cell] else cells)"

text \<open>\<open>sep.join(parts)\<close>\<close>

fun py_join :: "pystr \<Rightarrow> pystr list \<Rightarrow> pystr" where
  "py_join sep [] = []"
| "py_join sep [p] = p"
| "py_join sep (p # q # ps) = p @ sep @ py_join sep (q # ps)"

text \<open>Python 3's \<open>round\<close> of a number to an integer: to the nearest, a tie to the even one.\<close>

definition py_round :: "rat \<Rightarrow> int" where
  "py_round q =
     (let f = \<lfloor>q\<rfloor>; d = q - of_int f
      in if d < 1 / 2 then f else if 1 / 2 < d then f + 1 else if even f then f else f + 1)"

text \<open>\<open>min\<close> and \<open>max\<close> over a sequence; on an empty one they raise \<open>ValueError\<close>.\<close>

fun py_min :: "rat list \<Rightarrow> exn + rat" where
  "py_min [] = Inl Exception"
| "py_min (v # vs) = Inr (fold min vs v)"

fun py_max :: "rat list \<Rightarrow> exn + rat" where
  "py_max [] = Inl Exception"
| "py_max (v # vs) = Inr (fold max vs v)"

text \<open>A cell tuple \<open>(text, x0, x1, top, bottom)\<close>.\<close>

type_synonym cell = "pystr \<times> int \<times> int \<times> int \<times> int"

definition cell_to_tuple :: "word list \<Rightarrow> exn + cell" where
  "cell_to_tuple cell_words =
     (let cell_sorted = sort_key x0 cell_words;
          combined_text = py_join [32] (map w_text cell_sorted)
      in case py_min (map x0 cell_sorted) of Inl e \<Rightarrow> Inl e | Inr min_x0 \<Rightarrow>
         case py_max (map x1 cell_sorted) of Inl e \<Rightarrow> Inl e | Inr max_x1 \<Rightarrow>
         case py_min (map w_top cell_sorted) of Inl e \<Rightarrow> Inl e | Inr min_top \<Rightarrow>
         case py_max (map bottom cell_sorted) of Inl e \<Rightarrow> Inl e | Inr max_bottom \<Rightarrow>
           Inr (combined_text, py_round min_x0, py_round max_x1,
                py_round min_top, py_round max_bottom))"

text \<open>A list comprehension or loop over a body that may raise: the first exception ends it.\<close>

fun try_map :: "('a \<Rightarrow> exn + 'b) \<Rightarrow> 'a list \<Rightarrow> exn + 'b list" where
  "try_map f [] = Inr []"
| "try_map f (a # as) =
     (case f a of Inl e \<Rightarrow> Inl e
      | Inr b \<Rightarrow> (case try_map f as of Inl e \<Rightarrow> Inl e | Inr bs \<Rightarrow> Inr (b # bs)))"

text \<open>
  A page is what \<open>page.extract_words()\<close> answers for it: the words, or an exception.
  \<open>extract_rows_from_page\<close> returns the table and the raw cell groups.
\<close>

type_synonym page = "exn + word list"

definition extract_rows_from_page ::
    "page \<Rightarrow> rat \<Rightarrow> rat \<Rightarrow> exn + (cell list list \<times> word list list list)" where
  "extract_rows_from_page page vertical_threshold horizontal_threshold =
     (case page of Inl e \<Rightarrow> Inl e | Inr words \<Rightarrow>
        (let lines = group_words_into_lines words vertical_threshold;
             raw_cells = map (\<lambda>line. group_line_words_into_cells line horizontal_threshold) lines
         in case try_map (try_map cell_to_tuple) raw_cells of
              Inl e \<Rightarrow> Inl e
            | Inr table \<Rightarrow> Inr (table, raw_cells)))"

section \<open>The native-text parser (\<open>pdf_parser/textual_parser.py\<close>)\<close>

definition word_spacing :: int where "word_spacing = 4"
definition inaccuracy_threshold :: int where "inaccuracy_threshold = 5"
definition format__column_spacing :: nat where "format__column_spacing = 6"
definition format__min_gap :: nat where "format__min_gap = 2"
definition format__line_length :: nat where "format__line_length = 200"
definition max_pages_ingestion :: nat where "max_pages_ingestion = 10"

text \<open>\<open>'\n------------\n'\<close>: a line feed, twelve hyphens, a line feed.\<close>

definition page_delimiter :: pystr where
  "page_delimiter = [10] @ replicate 12 45 @ [10]"

text \<open>
  The inner loop of \<open>combine_close_words\<close> over \<open>row[1:]\<close>. The list \<open>merged_words\<close>
  starts as \<open>[row[0]]\<close> and is never empty, so it is carried as the words before its last
  one and the last one (\<open>merged_words[-1]\<close>).
\<close>

fun combine_loop :: "int \<Rightarrow> cell list \<Rightarrow> cell \<Rightarrow> cell list \<Rightarrow> cell list" where
  "combine_loop spacing merged_before last_word [] = merged_before @ [last_word]"
| "combine_loop spacing merged_before last_word (current_word # rest) =
     (case (last_word, current_word) of
        ((l_text, l_x_left, l_x_right, l_y_top, l_y_bottom),
         (c_text, c_x_left, c_x_right, c_y_top, c_y_bottom)) \<Rightarrow>
          (let gap = \<bar>l_x_right - c_x_left\<bar>
           in if gap \<le> spacing
              then combine_loop spacing merged_before
                     (l_text @ [32] @ c_text, l_x_left, c_x_right, l_y_top, l_y_bottom) rest
              else combine_loop spacing (merged_before @ [last_word]) current_word rest))"

fun combine_row :: "int \<Rightarrow> cell list \<Rightarrow> cell list" where
  "combine_row spacing [] = []"
| "combine_row spacing (first_word # rest) = combine_loop spacing [] first_word rest"

definition combine_close_words :: "cell list list \<Rightarrow> int \<Rightarrow> cell list list" where
  "combine_close_words rows spacing = map (combine_row spacing) rows"

text \<open>
  A number as pandas holds it in the index columns and in the running offset: an
  integer, or NaN (the maximum of an empty column, every sum with NaN, and the image of a
  value a mapping does not hold). A comparison with NaN is false.
\<close>

datatype pynum = Num int | NaN

fun py_add :: "pynum \<Rightarrow> pynum \<Rightarrow> pynum" where
  "py_add (Num a) (Num b) = Num (a + b)"
| "py_add _ _ = NaN"

fun py_lt :: "pynum \<Rightarrow> pynum \<Rightarrow> bool" where
  "py_lt (Num a) (Num b) = (a < b)"
| "py_lt _ _ = False"

fun py_eq :: "pynum \<Rightarrow> pynum \<Rightarrow> bool" where
  "py_eq (Num a) (Num b) = (a = b)"
| "py_eq _ _ = False"

text \<open>\<open>Series.max()\<close>: the largest entry that is not NaN, and NaN when there is none.\<close>

fun series_max :: "pynum list \<Rightarrow> pynum" where
  "series_max [] = NaN"
| "series_max (NaN # vs) = series_max vs"
| "series_max (Num a # vs) =
     (case series_max vs of NaN \<Rightarrow> Num a | Num b \<Rightarrow> Num (max a b))"

text \<open>
  A row of the page's data frame. The columns \<open>x\<close>, \<open>y\<close>, \<open>text\<close> (the fields \<open>c_x\<close>,
  \<open>c_y\<close>, \<open>c_text\<close>) come from \<open>create_coords_dataframe\<close>; \<open>y_bin\<close>, \<open>x_bin\<close>, \<open>y_index\<close> and \<open>x_index\<close> are added by
  \<open>get_binned_coords_dataframe\<close> and \<open>add_bin_index\<close>.
\<close>

record coords_row =
  c_x :: int
  c_y :: int
  c_text :: pystr

record df_row = coords_row +
  y_bin :: int
  x_bin :: int
  y_index :: pynum
  x_index :: pynum

definition create_coords_dataframe :: "cell list list \<Rightarrow> coords_row list" where
  "create_coords_dataframe word_rows =
     (let combined_word_rows = combine_close_words word_rows 4
      in concat (map (map (\<lambda>word_inf. case word_inf of
            (w_txt, x_left, x_right, y_top, y_bottom) \<Rightarrow>
              \<lparr>c_x = x_left, c_y = y_top, c_text = w_txt\<rparr>)) combined_word_rows))"

text \<open>
  The loop of \<open>group_coords\<close> over the sorted values. \<open>groups[-1][-1]\<close> is the last member
  of the last group; the test \<open>not groups\<close> comes first, as in the source.
\<close>

fun group_loop :: "int list \<Rightarrow> int list list \<Rightarrow> int list list" where
  "group_loop [] groups = groups"
| "group_loop (val # rest) groups =
     (if groups = [] \<or> \<bar>val - last (last groups)\<bar> > inaccuracy_threshold
      then group_loop rest (groups @ [[val]])
      else group_loop rest (butlast groups @ [last groups @ [val]]))"

text \<open>
  \<open>int(np.mean(g))\<close>: the mean of the group, truncated towards zero. The quotient is
  taken exactly; the floating-point mean agrees with it on coordinates of a page.
\<close>

definition int_mean :: "int list \<Rightarrow> int" where
  "int_mean g =
     (let s = sum_list g; n = int (length g)
      in if 0 \<le> s then s div n else - ((- s) div n))"

definition group_coords :: "int list \<Rightarrow> int list" where
  "group_coords vals =
     (let sorted_vals = sort vals;
          groups = group_loop sorted_vals []
      in map int_mean groups)"

fun map_to_bin :: "int \<Rightarrow> int list \<Rightarrow> int" where
  "map_to_bin val [] = val"
| "map_to_bin val (bin_y # y_bins) =
     (if \<bar>val - bin_y\<bar> \<le> 5 then bin_y else map_to_bin val y_bins)"

text \<open>
  \<open>{b: i for i, b in enumerate(sorted_bins)}\<close> and its use by \<open>Series.map\<close>. The
  dictionary holds every value of the column it is applied to; a value it does not hold
  would map to NaN.
\<close>

definition bin_to_index :: "int list \<Rightarrow> int \<rightharpoonup> nat" where
  "bin_to_index sorted_bins = map_of (zip sorted_bins [0 ..< length sorted_bins])"

definition add_bin_index :: "(coords_row \<times> int \<times> int) list \<Rightarrow> df_row list" where
  "add_bin_index df =
     (let sorted_y_bins = sort (remdups (map (\<lambda>(r, yb, xb). yb) df));
          ybin_to_index = bin_to_index sorted_y_bins;
          sorted_x_bins = sort (remdups (map (\<lambda>(r, yb, xb). xb) df));
          xbin_to_index = bin_to_index sorted_x_bins
      in map (\<lambda>(r, yb, xb).
           \<lparr>c_x = c_x r, c_y = c_y r, c_text = c_text r, y_bin = yb, x_bin = xb,
            y_index = (case ybin_to_index yb of Some i \<Rightarrow> Num (int i) | None \<Rightarrow> NaN),
            x_index = (case xbin_to_index xb of Some i \<Rightarrow> Num (int i) | None \<Rightarrow> NaN)\<rparr>) df)"

definition get_binned_coords_dataframe :: "cell list list \<Rightarrow> df_row list" where
  "get_binned_coords_dataframe word_rows =
     (let df = create_coords_dataframe word_rows;
          y_bins = group_coords (map c_y df);
          x_bins = group_coords (map c_x df)
      in add_bin_index
           (map (\<lambda>r. (r, map_to_bin (c_y r) y_bins, map_to_bin (c_x r) x_bins)) df))"

text \<open>
  Python's \<open>sorted(..., key=...)\<close> on keys that may be NaN: it compares with \<open><\<close> only and
  is stable, so an element is placed behind every element that is not greater. On keys
  that are all numbers this sorts them; on keys that are all NaN it leaves the order.
\<close>

fun py_insort :: "('a \<Rightarrow> pynum) \<Rightarrow> 'a \<Rightarrow> 'a list \<Rightarrow> 'a list" where
  "py_insort key a [] = [a]"
| "py_insort key a (b # bs) =
     (if py_lt (key a) (key b) then a # b # bs else b # py_insort key a bs)"

definition py_sorted :: "('a \<Rightarrow> pynum) \<Rightarrow> 'a list \<Rightarrow> 'a list" where
  "py_sorted key xs = foldl (\<lambda>acc a. py_insort key a acc) [] xs"

text \<open>
  Dictionaries keyed by such numbers, in insertion order. \<open>d[k].append(v)\<close> on a
  \<open>defaultdict(list)\<close>, \<open>d[k] = v\<close> and \<open>d.get(k, default)\<close>; keys are compared with
  \<open>==\<close>, which NaN never satisfies.
\<close>

fun dict_append :: "(pynum \<times> 'v list) list \<Rightarrow> pynum \<Rightarrow> 'v \<Rightarrow> (pynum \<times> 'v list) list" where
  "dict_append [] k v = [(k, [v])]"
| "dict_append ((k', vs) # d) k v =
     (if py_eq k' k then (k', vs @ [v]) # d else (k', vs) # dict_append d k v)"

fun dict_set :: "(pynum \<times> 'v) list \<Rightarrow> pynum \<Rightarrow> 'v \<Rightarrow> (pynum \<times> 'v) list" where
  "dict_set [] k v = [(k, v)]"
| "dict_set ((k', v') # d) k v =
     (if py_eq k' k then (k', v) # d else (k', v') # dict_set d k v)"

fun dict_get :: "(pynum \<times> 'v) list \<Rightarrow> pynum \<Rightarrow> 'v \<Rightarrow> 'v" where
  "dict_get [] k dflt = dflt"
| "dict_get ((k', v') # d) k dflt =
     (if py_eq k' k then v' else dict_get d k dflt)"

text \<open>
  \<open>str.isspace\<close> of one character, and \<open>rstrip()\<close>, \<open>strip()\<close> with no argument.
\<close>

definition py_isspace :: "pychar \<Rightarrow> bool" where
  "py_isspace c \<longleftrightarrow>
     (9 \<le> c \<and> c \<le> 13) \<or> (28 \<le> c \<and> c \<le> 32) \<or> c = 133 \<or> c = 160 \<or> c = 5760
     \<or> (8192 \<le> c \<and> c \<le> 8202) \<or> c = 8232 \<or> c = 8233 \<or> c = 8239 \<or> c = 8287
     \<or> c = 12288"

definition py_rstrip :: "pystr \<Rightarrow> pystr" where
  "py_rstrip s = rev (dropWhile py_isspace (rev s))"

definition py_strip :: "pystr \<Rightarrow> pystr" where
  "py_strip s = dropWhile py_isspace (py_rstrip s)"

text \<open>
  The grid renderer, \<open>format_text_by_grid_position\<close>. Offsets on the line are sums and
  maxima of natural numbers, so they are modelled as naturals.

  The loop that estimates the base column of each \<open>x_index\<close>:
\<close>

fun col_loop :: "pynum list \<Rightarrow> (pynum \<times> nat) list \<Rightarrow> nat \<Rightarrow> (pynum \<times> nat) list" where
  "col_loop [] x_index_to_col current_pos = x_index_to_col"
| "col_loop (xi # x_indices) x_index_to_col current_pos =
     col_loop x_indices (dict_set x_index_to_col xi current_pos)
       (current_pos + format__column_spacing)"

text \<open>The loop \<open>for i, char in enumerate(text)\<close> that places one word on the line.\<close>

fun place_text :: "pystr \<Rightarrow> nat \<Rightarrow> nat \<Rightarrow> pystr \<Rightarrow> pystr" where
  "place_text line actual_pos i [] = line"
| "place_text line actual_pos i (char # rest) =
     place_text
       (if actual_pos + i < format__line_length then line[actual_pos + i := char] else line)
       actual_pos (i + 1) rest"

text \<open>The loop over the words of one line; its state is \<open>(line, cursor_pos)\<close>.\<close>

fun words_loop ::
    "(pynum \<times> nat) list \<Rightarrow> (pynum \<times> pystr) list \<Rightarrow> pystr \<times> nat \<Rightarrow> pystr \<times> nat" where
  "words_loop x_index_to_col [] (line, cursor_pos) = (line, cursor_pos)"
| "words_loop x_index_to_col ((xi, text) # rest) (line, cursor_pos) =
     (let target_pos = dict_get x_index_to_col xi cursor_pos;
          actual_pos = max (cursor_pos + format__min_gap) target_pos
      in words_loop x_index_to_col rest
           (place_text line actual_pos 0 text, actual_pos + length text))"

text \<open>
  The values \<open>actual_pos\<close> takes in that loop, each with the word placed there: the
  placements of a line, in the order the loop makes them.
\<close>

fun placements ::
    "(pynum \<times> nat) list \<Rightarrow> (pynum \<times> pystr) list \<Rightarrow> nat \<Rightarrow> (nat \<times> pystr) list" where
  "placements x_index_to_col [] cursor_pos = []"
| "placements x_index_to_col ((xi, text) # rest) cursor_pos =
     (let target_pos = dict_get x_index_to_col xi cursor_pos;
          actual_pos = max (cursor_pos + format__min_gap) target_pos
      in (actual_pos, text) # placements x_index_to_col rest (actual_pos + length text))"

definition lines_by_y_of :: "df_row list \<Rightarrow> (pynum \<times> (pynum \<times> pystr) list) list" where
  "lines_by_y_of df =
     foldl (\<lambda>lines_by_y row. dict_append lines_by_y (y_index row) (x_index row, c_text row))
       [] df"

definition x_index_to_col_of :: "df_row list \<Rightarrow> (pynum \<times> nat) list" where
  "x_index_to_col_of df =
     (let x_indices = py_sorted (\<lambda>xi. xi) (remdups (map x_index df))
      in col_loop x_indices [] 0)"

definition render_line :: "(pynum \<times> nat) list \<Rightarrow> (pynum \<times> pystr) list \<Rightarrow> pystr" where
  "render_line x_index_to_col words =
     (let line = replicate format__line_length 32
      in py_rstrip (fst (words_loop x_index_to_col (py_sorted fst words) (line, 0))))"

definition formatted_lines_of :: "df_row list \<Rightarrow> pystr list" where
  "formatted_lines_of df =
     (let lines_by_y = lines_by_y_of df;
          x_index_to_col = x_index_to_col_of df
      in map (\<lambda>(yi, words). render_line x_index_to_col words) (py_sorted fst lines_by_y))"

definition format_text_by_grid_position :: "df_row list \<Rightarrow> pystr" where
  "format_text_by_grid_position df = py_join [10] (formatted_lines_of df)"

text \<open>
  The body of the \<open>try\<close> block of \<open>parse_pdf_and_format\<close> for one page: the page's data
  frame with the offset added, the next offset and the page text. Only the word
  extraction can raise.
\<close>

definition process_page :: "page \<Rightarrow> pynum \<Rightarrow> exn + (df_row list \<times> pynum \<times> pystr)" where
  "process_page page y_offset =
     (case extract_rows_from_page page 5 10 of
        Inl e \<Rightarrow> Inl e
      | Inr (word_rows, raw_cells) \<Rightarrow>
          (let df0 = get_binned_coords_dataframe word_rows;
               df = map (\<lambda>r. r\<lparr>y_index := py_add (y_index r) y_offset\<rparr>) df0;
               y_offset' = py_add (series_max (map y_index df)) (Num 1);
               page_text = format_text_by_grid_position df
           in Inr (df, y_offset', page_text)))"

text \<open>
  The loop over the pages; its state is \<open>(all_dfs, y_offset, pages_text)\<close> (the
  list \<open>pages_txt\<close>). A page that
  raises is skipped and leaves the state as it was.
\<close>

fun pages_loop ::
    "page list \<Rightarrow> df_row list list \<times> pynum \<times> pystr list
      \<Rightarrow> df_row list list \<times> pynum \<times> pystr list" where
  "pages_loop [] st = st"
| "pages_loop (page # rest) (all_dfs, y_offset, pages_txt) =
     (case process_page page y_offset of
        Inl e \<Rightarrow> pages_loop rest (all_dfs, y_offset, pages_txt)
      | Inr (df, y_offset', page_text) \<Rightarrow>
          pages_loop rest (all_dfs @ [df], y_offset', pages_txt @ [page_text]))"

text \<open>
  \<open>parse_pdf_and_format\<close> on the pages of the opened document: the final \<open>all_dfs\<close>,
  \<open>self.pages_text\<close> and the returned text.
\<close>

definition parse_pdf_and_format :: "page list \<Rightarrow> df_row list list \<times> pystr list \<times> pystr" where
  "parse_pdf_and_format pdf_pages =
     (case pages_loop (take max_pages_ingestion pdf_pages) ([], Num 0, []) of
        (all_dfs, y_offset, pages_txt) \<Rightarrow>
          (all_dfs, pages_txt, py_join page_delimiter pages_txt))"

text \<open>
  \<open>TextualParser(file)\<close>: \<open>pdfplumber.open\<close> answers with the pages or raises, and the
  exception leaves the constructor.
\<close>

definition TextualParser :: "exn + page list \<Rightarrow> exn + parser" where
  "TextualParser file =
     (case file of
        Inl e \<Rightarrow> Inl e
      | Inr pdf_pages \<Rightarrow>
          (case parse_pdf_and_format pdf_pages of
             (all_dfs, pages, full_text) \<Rightarrow>
               Inr \<lparr>parse_method = ''TEXT-PDF'', pages_text = pages, raw_text = full_text\<rparr>))"

section \<open>The OCR parser (\<open>pdf_parser/visual_parser.py\<close>)\<close>

text \<open>
  A row of the OCR engine's word-box table (\<open>text\<close> may be null), and a row of the table
  once the null texts are dropped.
\<close>

record ocr_row =
  o_text :: "pystr option"
  o_left :: int
  o_top :: int
  o_conf :: rat

record ocr_word =
  ow_text :: pystr
  ow_left :: int
  ow_top :: int

text \<open>
  What the OCR collaborator answers for one page image: the table of
  \<open>image_to_data\<close> and the transcription of \<open>image_to_string\<close>, or an exception.
\<close>

record ocr_image =
  image_to_data :: "exn + ocr_row list"
  image_to_string :: "exn + pystr"

definition format__line_tol :: int where "format__line_tol = 10"

text \<open>\<open>data[data.conf != -1].dropna(subset=["text"])\<close>\<close>

definition usable_rows :: "ocr_row list \<Rightarrow> ocr_word list" where
  "usable_rows data =
     concat (map (\<lambda>r. case o_text r of
                        None \<Rightarrow> []
                      | Some t \<Rightarrow> [\<lparr>ow_text = t, ow_left = o_left r, ow_top = o_top r\<rparr>])
       (filter (\<lambda>r. o_conf r \<noteq> - 1) data))"

text \<open>
  The first loop of \<open>reconstruct_text_from_df\<close>: the line whose key is the first, in
  insertion order, within the tolerance of the word's top, or a new line.
\<close>

fun find_line :: "(int \<times> 'v) list \<Rightarrow> int \<Rightarrow> int option" where
  "find_line [] yv = None"
| "find_line ((line_y, ws) # lines) yv =
     (if \<bar>line_y - yv\<bar> \<le> format__line_tol then Some line_y else find_line lines yv)"

fun line_append :: "(int \<times> 'v list) list \<Rightarrow> int \<Rightarrow> 'v \<Rightarrow> (int \<times> 'v list) list" where
  "line_append [] k v = [(k, [v])]"
| "line_append ((k', vs) # d) k v =
     (if k' = k then (k', vs @ [v]) # d else (k', vs) # line_append d k v)"

fun ocr_lines_loop ::
    "ocr_word list \<Rightarrow> (int \<times> (int \<times> pystr) list) list \<Rightarrow> (int \<times> (int \<times> pystr) list) list" where
  "ocr_lines_loop [] lines = lines"
| "ocr_lines_loop (row # rest) lines =
     (let yv = ow_top row;
          matched_line = find_line lines yv;
          line_key = (case matched_line of Some line_y \<Rightarrow> line_y | None \<Rightarrow> yv)
      in ocr_lines_loop rest (line_append lines line_key (ow_left row, ow_text row)))"

definition reconstruct_text_from_df :: "ocr_word list \<Rightarrow> pystr" where
  "reconstruct_text_from_df data0 =
     (let data1 = map (\<lambda>r. r\<lparr>ow_text := py_strip (ow_text r)\<rparr>) data0;
          data = filter (\<lambda>r. ow_text r \<noteq> []) data1;
          lines = ocr_lines_loop data [];
          reconstructed =
            map (\<lambda>(line_y, ws). py_join [32] (map snd (sort_key fst ws))) (sort_key fst lines)
      in py_join [10] reconstructed)"

text \<open>
  The body of the \<open>try\<close> block of \<open>read_text_from_images\<close> up to \<open>img_text\<close>. The Unicode
  lower-casing of \<open>str.lower\<close> is the Python runtime's and is a parameter.
\<close>

definition image_text :: "(pystr \<Rightarrow> pystr) \<Rightarrow> ocr_image \<Rightarrow> exn + pystr" where
  "image_text lower img =
     (case image_to_data img of
        Inl e \<Rightarrow> Inl e
      | Inr data0 \<Rightarrow>
          (let data = usable_rows data0
           in if length data < 10
              then (case image_to_string img of
                      Inl e \<Rightarrow> Inl e
                    | Inr s \<Rightarrow> Inr (lower (py_strip s)))
              else Inr (reconstruct_text_from_df data)))"

text \<open>
  The loop over the images; its state is \<open>(text, pages_added, page_texts)\<close>. It stops
  (\<open>break\<close>) once \<open>max_pages_ingestion\<close> pages were added, and goes on after an exception.
\<close>

fun images_loop ::
    "(pystr \<Rightarrow> pystr) \<Rightarrow> ocr_image list \<Rightarrow> pystr \<times> nat \<times> pystr list \<Rightarrow> pystr \<times> nat \<times> pystr list"
    where
  "images_loop lower [] st = st"
| "images_loop lower (img # rest) (text, pages_added, page_texts) =
     (case image_text lower img of
        Inl e \<Rightarrow> images_loop lower rest (text, pages_added, page_texts)
      | Inr img_text \<Rightarrow>
          (let page_texts' = page_texts @ [img_text];
               text' = text @ img_text @ page_delimiter;
               pages_added' = pages_added + 1
           in if pages_added' = max_pages_ingestion then (text', pages_added', page_texts')
              else images_loop lower rest (text', pages_added', page_texts')))"

text \<open>\<open>read_text_from_images\<close>: \<open>self.pages_text\<close> and the returned text.\<close>

definition read_text_from_images ::
    "(pystr \<Rightarrow> pystr) \<Rightarrow> ocr_image list \<Rightarrow> pystr list \<times> pystr" where
  "read_text_from_images lower images =
     (case images_loop lower images ([], 0, []) of
        (text, pages_added, page_texts) \<Rightarrow> (page_texts, text))"

text \<open>
  \<open>VisualParser(file)\<close>: \<open>read_images_from_file\<close> returns the page images, or the empty
  list when the conversion raises.
\<close>

definition VisualParser :: "(pystr \<Rightarrow> pystr) \<Rightarrow> exn + ocr_image list \<Rightarrow> parser" where
  "VisualParser lower file =
     (let images = (case file of Inl e \<Rightarrow> [] | Inr imgs \<Rightarrow> imgs)
      in case read_text_from_images lower images of
           (page_texts, text) \<Rightarrow>
             \<lparr>parse_method = ''IMAGE-PDF'', pages_text = page_texts, raw_text = text\<rparr>)"

section \<open>Reference algorithms for the coordinate binner\<close>

text \<open>The exact mean of a group, a rational number.\<close>

definition rat_mean :: "int list \<Rightarrow> rat" where
  "rat_mean g = of_int (sum_list g) / of_int (int (length g))"

text \<open>
  The reference algorithm in the words of the specification: sort the values, start a
  new bin whenever the gap from the incoming value to the running mean of the last bin
  exceeds \<open>t\<close>, and emit the mean of each bin.
\<close>

fun running_mean_loop :: "rat \<Rightarrow> int list \<Rightarrow> int list list \<Rightarrow> int list list" where
  "running_mean_loop t [] bins = bins"
| "running_mean_loop t (v # rest) bins =
     (if bins = [] \<or> \<bar>of_int v - rat_mean (last bins)\<bar> > t
      then running_mean_loop t rest (bins @ [[v]])
      else running_mean_loop t rest (butlast bins @ [last bins @ [v]]))"

definition running_mean_reference :: "rat \<Rightarrow> int list \<Rightarrow> rat list" where
  "running_mean_reference t vals = map rat_mean (running_mean_loop t (sort vals) [])"

text \<open>
  The greedy pass that compares each value with the value before it: on a sorted list, a
  value starts a new bin exactly when its gap to its predecessor (the last member of the
  last bin) exceeds \<open>t\<close>.
\<close>

fun chain_split :: "int \<Rightarrow> int list \<Rightarrow> int list list" where
  "chain_split t [] = []"
| "chain_split t [v] = [[v]]"
| "chain_split t (v # w # rest) =
     (if \<bar>w - v\<bar> > t then [v] # chain_split t (w # rest)
      else (case chain_split t (w # rest) of
              g # gs \<Rightarrow> (v # g) # gs
            | [] \<Rightarrow> [[v]]))"

text \<open>A rational truncated towards zero.\<close>

definition truncate_rat :: "rat \<Rightarrow> int" where
  "truncate_rat q = (if 0 \<le> q then \<lfloor>q\<rfloor> else \<lceil>q\<rceil>)"

section \<open>Properties of the parser selector\<close>

lemma hex_pattern_search_iff: "hex_pattern_search s \<longleftrightarrow> contains_hex_escape s"
proof (induction s rule: hex_pattern_search.induct)
  case (1 a b c d rest)
  let ?s = "a # b # c # d # rest"
  have "contains_hex_escape ?s \<longleftrightarrow>
          (a = 92 \<and> b = 120 \<and> is_hex_digit c \<and> is_hex_digit d)
          \<or> contains_hex_escape (b # c # d # rest)"
  proof
    assume "contains_hex_escape ?s"
    then obtain i where i: "i + 3 < length ?s" "?s ! i = 92" "?s ! (i + 1) = 120"
        "is_hex_digit (?s ! (i + 2))" "is_hex_digit (?s ! (i + 3))"
      unfolding contains_hex_escape_def by blast
    show "(a = 92 \<and> b = 120 \<and> is_hex_digit c \<and> is_hex_digit d)
          \<or> contains_hex_escape (b # c # d # rest)"
    proof (cases i)
      case 0
      with i show ?thesis by simp
    next
      case (Suc j)
      with i have "j + 3 < length (b # c # d # rest) \<and> (b # c # d # rest) ! j = 92
          \<and> (b # c # d # rest) ! (j + 1) = 120
          \<and> is_hex_digit ((b # c # d # rest) ! (j + 2))
          \<and> is_hex_digit ((b # c # d # rest) ! (j + 3))"
        by simp
      then have "contains_hex_escape (b # c # d # rest)"
        unfolding contains_hex_escape_def by blast
      then show ?thesis ..
    qed
  next
    assume "(a = 92 \<and> b = 120 \<and> is_hex_digit c \<and> is_hex_digit d)
          \<or> contains_hex_escape (b # c # d # rest)"
    then show "contains_hex_escape ?s"
    proof
      assume "a = 92 \<and> b = 120 \<and> is_hex_digit c \<and> is_hex_digit d"
      then have "0 + 3 < length ?s \<and> ?s ! 0 = 92 \<and> ?s ! (0 + 1) = 120
          \<and> is_hex_digit (?s ! (0 + 2)) \<and> is_hex_digit (?s ! (0 + 3))"
        by (simp add: numeral_3_eq_3)
      then show ?thesis unfolding contains_hex_escape_def by blast
    next
      assume "contains_hex_escape (b # c # d # rest)"
      then obtain j where "j + 3 < length (b # c # d # rest)" "(b # c # d # rest) ! j = 92"
          "(b # c # d # rest) ! (j + 1) = 120" "is_hex_digit ((b # c # d # rest) ! (j + 2))"
          "is_hex_digit ((b # c # d # rest) ! (j + 3))"
        unfolding contains_hex_escape_def by blast
      then have "Suc j + 3 < length ?s \<and> ?s ! Suc j = 92 \<and> ?s ! (Suc j + 1) = 120
          \<and> is_hex_digit (?s ! (Suc j + 2)) \<and> is_hex_digit (?s ! (Suc j + 3))"
        by simp
      then show ?thesis unfolding contains_hex_escape_def by blast
    qed
  qed
  with 1 show ?case by simp
qed (auto simp: contains_hex_escape_def less_Suc_eq numeral_3_eq_3 numeral_2_eq_2)

lemma ctrl_pattern_search_iff:
  "ctrl_pattern_search (filter (\<lambda>c. c \<notin> allowed) s) \<longleftrightarrow>
     (\<exists>c. c \<in> set s \<and> is_control_char c \<and> c \<notin> {10, 9, 13})"
proof -
  have "\<And>c. (c \<notin> allowed \<and> ctrl_class c) \<longleftrightarrow> (is_control_char c \<and> c \<notin> {10, 9, 13})"
    unfolding allowed_def ctrl_class_def is_control_char_def by auto
  then show ?thesis
    unfolding ctrl_pattern_search_def list_ex_iff by auto
qed

lemma has_binary_encoding_iff: "has_binary_encoding s \<longleftrightarrow> corrupted_text s"
  unfolding has_binary_encoding_def corrupted_text_def Let_def
  using hex_pattern_search_iff [of s] ctrl_pattern_search_iff [of s] by auto

text \<open>
  C1. Whenever the native reconstruction returned a parser (no exception), a text with a
  hexadecimal escape or a control character outside the allow-list makes the selector
  return the OCR parser; a native text with neither, reached by a document above the
  token threshold, is returned as it is.
\<close>

theorem select_parser_corrupted_text:
  assumes "make_textual () = Inr p"
  shows "(corrupted_text (raw_text p) \<longrightarrow>
            select_parser n_tokens make_textual make_visual = make_visual ())
       \<and> (\<not> corrupted_text (raw_text p) \<and> token_threshold < n_tokens \<longrightarrow>
            select_parser n_tokens make_textual make_visual = p)"
  using assms has_binary_encoding_iff [of "raw_text p"]
  by (simp add: select_parser_def)

theorem select_parser_corrupted_text_witness:
  "select_parser 50
     (\<lambda>_. Inr \<lparr>parse_method = ''TEXT-PDF'', pages_text = [[97, 92, 120, 65, 66]],
                raw_text = [97, 92, 120, 65, 66]\<rparr>)
     (\<lambda>_. \<lparr>parse_method = ''IMAGE-PDF'', pages_text = [[97]], raw_text = [97]\<rparr>)
   = \<lparr>parse_method = ''IMAGE-PDF'', pages_text = [[97]], raw_text = [97]\<rparr>
   \<and> select_parser 50
     (\<lambda>_. Inr \<lparr>parse_method = ''TEXT-PDF'', pages_text = [[97, 7]], raw_text = [97, 7]\<rparr>)
     (\<lambda>_. \<lparr>parse_method = ''IMAGE-PDF'', pages_text = [[97]], raw_text = [97]\<rparr>)
   = \<lparr>parse_method = ''IMAGE-PDF'', pages_text = [[97]], raw_text = [97]\<rparr>
   \<and> select_parser 50
     (\<lambda>_. Inr \<lparr>parse_method = ''TEXT-PDF'', pages_text = [[97, 10, 98]], raw_text = [97, 10, 98]\<rparr>)
     (\<lambda>_. \<lparr>parse_method = ''IMAGE-PDF'', pages_text = [[97]], raw_text = [97]\<rparr>)
   = \<lparr>parse_method = ''TEXT-PDF'', pages_text = [[97, 10, 98]], raw_text = [97, 10, 98]\<rparr>"
proof -
  let ?ocr = "\<lparr>parse_method = ''IMAGE-PDF'', pages_text = [[97]], raw_text = [97::nat]\<rparr>"
  let ?hex = "\<lparr>parse_method = ''TEXT-PDF'', pages_text = [[97, 92, 120, 65, 66]],
                raw_text = [97, 92, 120, 65, 66::nat]\<rparr>"
  let ?ctl = "\<lparr>parse_method = ''TEXT-PDF'', pages_text = [[97, 7]], raw_text = [97, 7::nat]\<rparr>"
  let ?ok = "\<lparr>parse_method = ''TEXT-PDF'', pages_text = [[97, 10, 98]], raw_text = [97, 10, 98::nat]\<rparr>"
  have hex: "corrupted_text (raw_text ?hex)"
    unfolding has_binary_encoding_iff [symmetric]
    by (simp add: has_binary_encoding_def is_hex_digit_def)
  have ctl: "corrupted_text (raw_text ?ctl)"
    unfolding has_binary_encoding_iff [symmetric]
    by (simp add: has_binary_encoding_def allowed_def ctrl_pattern_search_def ctrl_class_def)
  have ok: "\<not> corrupted_text (raw_text ?ok) \<and> token_threshold < 50"
    unfolding has_binary_encoding_iff [symmetric]
    by (simp add: has_binary_encoding_def allowed_def ctrl_pattern_search_def ctrl_class_def
        token_threshold_def)
  show ?thesis
    using select_parser_corrupted_text [of "\<lambda>_. Inr ?hex" ?hex 50 "\<lambda>_. ?ocr"]
      select_parser_corrupted_text [of "\<lambda>_. Inr ?ctl" ?ctl 50 "\<lambda>_. ?ocr"]
      select_parser_corrupted_text [of "\<lambda>_. Inr ?ok" ?ok 50 "\<lambda>_. ?ocr"]
      hex ctl ok
    by simp
qed

lemma count_tokens_loop_sum:
  "count_tokens_loop encode pages n =
     n + (\<Sum>page\<leftarrow>pages. int (length (encode (case page of Some t \<Rightarrow> t | None \<Rightarrow> []))))"
  by (induction pages arbitrary: n) (auto split: option.splits)

text \<open>
  C8. A document whose token estimate is at most the threshold of 10 (so, in particular,
  below it) gets the OCR parser's result whatever the native constructor would have
  done, and the result can depend on the native constructor only when the estimate
  exceeds 10.
\<close>

theorem pdf_parser_select_sparse:
  "(count_tokens_in_pdf encode pages \<le> 10 \<longrightarrow>
      pdf_parser_select encode pages make_textual make_visual
        = (count_tokens_in_pdf encode pages, make_visual ()))
   \<and> (pdf_parser_select encode pages make_textual make_visual
        \<noteq> pdf_parser_select encode pages make_textual' make_visual \<longrightarrow>
      10 < count_tokens_in_pdf encode pages)"
  by (auto simp: pdf_parser_select_def select_parser_def token_threshold_def Let_def)

theorem pdf_parser_select_sparse_witness:
  "pdf_parser_select (\<lambda>s. s) [Some [72, 105], None, Some [33]]
     (\<lambda>_. Inr \<lparr>parse_method = ''TEXT-PDF'', pages_text = [[72, 105]], raw_text = [72, 105]\<rparr>)
     (\<lambda>_. \<lparr>parse_method = ''IMAGE-PDF'', pages_text = [[104, 105]], raw_text = [104, 105]\<rparr>)
   = (3, \<lparr>parse_method = ''IMAGE-PDF'', pages_text = [[104, 105]], raw_text = [104, 105]\<rparr>)
   \<and> 10 < count_tokens_in_pdf (\<lambda>s. s) [Some [72, 105, 32, 116, 104, 101, 114, 101, 33, 33, 33 :: nat]]"
proof -
  let ?pages = "[Some [72, 105], None, Some [33 :: nat]]"
  let ?long = "[Some [72, 105, 32, 116, 104, 101, 114, 101, 33, 33, 33 :: nat]]"
  let ?txt = "\<lparr>parse_method = ''TEXT-PDF'', pages_text = [[72, 105]], raw_text = [72, 105 :: nat]\<rparr>"
  let ?ocr = "\<lparr>parse_method = ''IMAGE-PDF'', pages_text = [[104, 105]], raw_text = [104, 105 :: nat]\<rparr>"
  have n: "count_tokens_in_pdf (\<lambda>s. s) ?pages = 3"
    by (simp add: count_tokens_in_pdf_def)
  have differ: "pdf_parser_select (\<lambda>s. s) ?long (\<lambda>_. Inr ?txt) (\<lambda>_. ?ocr)
      \<noteq> pdf_parser_select (\<lambda>s. s) ?long (\<lambda>_. Inl Exception) (\<lambda>_. ?ocr)"
    by (simp add: pdf_parser_select_def select_parser_def token_threshold_def
        count_tokens_in_pdf_def has_binary_encoding_def allowed_def ctrl_pattern_search_def
        ctrl_class_def)
  show ?thesis
    using pdf_parser_select_sparse [of "\<lambda>s. s" ?pages "\<lambda>_. Inr ?txt" "\<lambda>_. ?ocr"]
      pdf_parser_select_sparse [of "\<lambda>s. s" ?long "\<lambda>_. Inr ?txt" "\<lambda>_. ?ocr" "\<lambda>_. Inl Exception"]
      n differ
    by simp
qed

section \<open>Properties of the coordinate binner\<close>

lemma chain_split_Cons: "\<exists>g gs. chain_split t (v # vs) = (v # g) # gs"
  by (induction vs arbitrary: v) (auto split: list.splits)

lemma group_loop_chain_split:
  assumes "g \<noteq> []"
  shows "group_loop vs (gs @ [g]) =
           gs @ [butlast g @ hd (chain_split inaccuracy_threshold (last g # vs))]
              @ tl (chain_split inaccuracy_threshold (last g # vs))"
  using assms
proof (induction vs arbitrary: gs g)
  case Nil
  then show ?case by simp
next
  case (Cons v r)
  obtain c cs where c: "chain_split inaccuracy_threshold (v # r) = (v # c) # cs"
    using chain_split_Cons by blast
  show ?case
  proof (cases "\<bar>v - last g\<bar> > inaccuracy_threshold")
    case True
    have "group_loop (v # r) (gs @ [g]) = group_loop r ((gs @ [g]) @ [[v]])"
      using True by simp
    also have "\<dots> = (gs @ [g]) @ [butlast [v] @ hd (chain_split inaccuracy_threshold (last [v] # r))]
                 @ tl (chain_split inaccuracy_threshold (last [v] # r))"
      by (rule Cons.IH) simp
    also have "\<dots> = gs @ [butlast g @ hd (chain_split inaccuracy_threshold (last g # v # r))]
                 @ tl (chain_split inaccuracy_threshold (last g # v # r))"
      using True Cons.prems c by simp
    finally show ?thesis .
  next
    case False
    have "group_loop (v # r) (gs @ [g]) = group_loop r (gs @ [g @ [v]])"
      using False by simp
    also have "\<dots> = gs @ [butlast (g @ [v]) @ hd (chain_split inaccuracy_threshold (last (g @ [v]) # r))]
                 @ tl (chain_split inaccuracy_threshold (last (g @ [v]) # r))"
      by (rule Cons.IH) simp
    also have "\<dots> = gs @ [butlast g @ hd (chain_split inaccuracy_threshold (last g # v # r))]
                 @ tl (chain_split inaccuracy_threshold (last g # v # r))"
      using False Cons.prems c by simp
    finally show ?thesis .
  qed
qed

lemma group_loop_Nil: "group_loop vs [] = chain_split inaccuracy_threshold vs"
proof (cases vs)
  case Nil
  then show ?thesis by simp
next
  case (Cons v r)
  obtain c cs where c: "chain_split inaccuracy_threshold (v # r) = (v # c) # cs"
    using chain_split_Cons by blast
  have "group_loop (v # r) [] = group_loop r ([] @ [[v]])" by simp
  also have "\<dots> = [] @ [butlast [v] @ hd (chain_split inaccuracy_threshold (last [v] # r))]
                 @ tl (chain_split inaccuracy_threshold (last [v] # r))"
    by (rule group_loop_chain_split) simp
  also have "\<dots> = chain_split inaccuracy_threshold (v # r)" using c by simp
  finally show ?thesis using Cons by simp
qed

lemma group_coords_chain:
  "group_coords vals = map int_mean (chain_split inaccuracy_threshold (sort vals))"
  by (simp add: group_coords_def group_loop_Nil)


lemma concat_chain_split: "concat (chain_split t vs) = vs"
proof (induction t vs rule: chain_split.induct)
  case (3 t v w rest)
  obtain c cs where c: "chain_split t (w # rest) = (w # c) # cs"
    using chain_split_Cons by blast
  with 3 show ?case by (cases "\<bar>w - v\<bar> > t") auto
qed simp_all

lemma chain_split_nonempty: "g \<in> set (chain_split t vs) \<Longrightarrow> g \<noteq> []"
proof (induction t vs arbitrary: g rule: chain_split.induct)
  case (3 t v w rest)
  obtain c cs where c: "chain_split t (w # rest) = (w # c) # cs"
    using chain_split_Cons by blast
  with 3 show ?case by (cases "\<bar>w - v\<bar> > t") auto
qed simp_all

lemma chain_split_separated:
  "sorted vs \<Longrightarrow>
     sorted_wrt (\<lambda>g h. \<forall>a\<in>set g. \<forall>b\<in>set h. a + t < b) (chain_split t vs)"
proof (induction t vs rule: chain_split.induct)
  case (3 t v w rest)
  obtain c cs where c: "chain_split t (w # rest) = (w # c) # cs"
    using chain_split_Cons by blast
  have srt: "sorted (w # rest)" and vw: "v \<le> w" using "3.prems" by auto
  have cc: "concat (chain_split t (w # rest)) = w # rest" by (rule concat_chain_split)
  show ?case
  proof (cases "\<bar>w - v\<bar> > t")
    case True
    have ih: "sorted_wrt (\<lambda>g h. \<forall>a\<in>set g. \<forall>b\<in>set h. a + t < b) (chain_split t (w # rest))"
      using "3.IH"(1) True srt by simp
    have "\<forall>h\<in>set (chain_split t (w # rest)). \<forall>b\<in>set h. v + t < b"
    proof (intro ballI)
      fix h b assume "h \<in> set (chain_split t (w # rest))" "b \<in> set h"
      then have "b \<in> set (concat (chain_split t (w # rest)))" by auto
      then have "b \<in> set (w # rest)" using cc by simp
      then have "w \<le> b" using srt by auto
      then show "v + t < b" using True vw by linarith
    qed
    with ih True show ?thesis by simp
  next
    case False
    have ih: "sorted_wrt (\<lambda>g h. \<forall>a\<in>set g. \<forall>b\<in>set h. a + t < b) ((w # c) # cs)"
      using "3.IH"(2) False srt c by simp
    then have "\<forall>h\<in>set cs. \<forall>b\<in>set h. w + t < b" by simp
    then have "\<forall>h\<in>set cs. \<forall>b\<in>set h. v + t < b" using vw by fastforce
    with ih False c show ?thesis by simp
  qed
qed simp_all

lemma int_mean_bounds:
  assumes "g \<noteq> []" and "\<forall>a\<in>set g. lo \<le> a \<and> a \<le> hi"
  shows "lo \<le> int_mean g \<and> int_mean g \<le> hi"
proof -
  let ?n = "int (length g)"
  have n: "0 < ?n" using assms(1) by simp
  have lo: "lo * ?n \<le> sum_list g"
    using assms(2) sum_list_mono [of g "\<lambda>_. lo" "\<lambda>a. a"]
    by (simp add: sum_list_triv mult.commute)
  have hi: "sum_list g \<le> hi * ?n"
    using assms(2) sum_list_mono [of g "\<lambda>a. a" "\<lambda>_. hi"]
    by (simp add: sum_list_triv mult.commute)
  show ?thesis
  proof (cases "0 \<le> sum_list g")
    case True
    have "lo \<le> sum_list g div ?n"
      using lo n zdiv_mono1 [of "lo * ?n" "sum_list g" ?n] by simp
    moreover have "sum_list g div ?n \<le> hi"
      using hi n zdiv_mono1 [of "sum_list g" "hi * ?n" ?n] by simp
    ultimately show ?thesis using True by (simp add: int_mean_def Let_def)
  next
    case False
    have e: "\<And>k. (- (k * ?n)) div ?n = - k"
      using n by (simp add: mult_minus_left [symmetric] del: mult_minus_left)
    have "(- sum_list g) div ?n \<le> (- (lo * ?n)) div ?n"
      using lo n by (intro zdiv_mono1) simp_all
    then have "(- sum_list g) div ?n \<le> - lo" by (simp only: e)
    moreover have "(- (hi * ?n)) div ?n \<le> (- sum_list g) div ?n"
      using hi n by (intro zdiv_mono1) simp_all
    then have "- hi \<le> (- sum_list g) div ?n" by (simp only: e)
    ultimately show ?thesis using False by (simp add: int_mean_def Let_def)
  qed
qed

lemma centers_separated:
  assumes "\<forall>g\<in>set gs. g \<noteq> []"
      and "sorted_wrt (\<lambda>g h. \<forall>a\<in>set g. \<forall>b\<in>set h. a + t < b) gs"
  shows "sorted_wrt (\<lambda>a b. a + t < b) (map int_mean gs)"
  using assms
proof (induction gs)
  case Nil
  then show ?case by simp
next
  case (Cons g gs)
  have "\<forall>h\<in>set gs. int_mean g + t < int_mean h"
  proof
    fix h assume h: "h \<in> set gs"
    have g: "g \<noteq> []" and hne: "h \<noteq> []" using Cons.prems(1) h by auto
    have sep: "\<forall>a\<in>set g. \<forall>b\<in>set h. a + t < b" using Cons.prems(2) h by simp
    have "int_mean g \<le> Max (set g)"
      using int_mean_bounds [OF g, of "Min (set g)" "Max (set g)"] by simp
    moreover have "Min (set h) \<le> int_mean h"
      using int_mean_bounds [OF hne, of "Min (set h)" "Max (set h)"] by simp
    moreover have "Max (set g) + t < Min (set h)"
      using sep g hne by (meson List.finite_set Max_in Min_in set_empty)
    ultimately show "int_mean g + t < int_mean h" by linarith
  qed
  with Cons show ?case by simp
qed

lemma map_to_bin_separated:
  "sorted_wrt (\<lambda>a b. a + 5 < b) bins \<Longrightarrow> b \<in> set bins \<Longrightarrow> map_to_bin b bins = b"
proof (induction bins)
  case Nil
  then show ?case by simp
next
  case (Cons c bins)
  show ?case
  proof (cases "b = c")
    case True
    then show ?thesis by simp
  next
    case False
    then have "b \<in> set bins" using Cons.prems(2) by simp
    moreover from this have "c + 5 < b" using Cons.prems(1) by simp
    moreover have "sorted_wrt (\<lambda>a b. a + 5 < b) bins" using Cons.prems(1) by simp
    ultimately show ?thesis using Cons.IH by simp
  qed
qed

text \<open>
  C5. Every bin center that \<open>group_coords\<close> produces is mapped to itself by \<open>map_to_bin\<close>
  against the same list of bins.
\<close>

theorem map_to_bin_idempotent:
  "b \<in> set (group_coords vals) \<Longrightarrow> map_to_bin b (group_coords vals) = b"
proof -
  assume b: "b \<in> set (group_coords vals)"
  have "sorted_wrt (\<lambda>a b. a + 5 < b) (map int_mean (chain_split 5 (sort vals)))"
    by (rule centers_separated) (auto simp: chain_split_nonempty chain_split_separated)
  then show ?thesis
    using b map_to_bin_separated by (simp add: group_coords_chain inaccuracy_threshold_def)
qed

theorem map_to_bin_idempotent_witness:
  "group_coords [10, 0, 4, 8, 20, 22, 23, - 3] = [3, 21]
   \<and> map_to_bin 21 (group_coords [10, 0, 4, 8, 20, 22, 23, - 3]) = 21"
proof -
  have g: "group_coords [10, 0, 4, 8, 20, 22, 23, - 3] = [3, 21]"
    by (simp add: group_coords_def inaccuracy_threshold_def int_mean_def)
  then have "21 \<in> set (group_coords [10, 0, 4, 8, 20, 22, 23, - 3])" by simp
  from map_to_bin_idempotent [OF this] g show ?thesis by simp
qed

lemma int_mean_truncate_rat: "g \<noteq> [] \<Longrightarrow> int_mean g = truncate_rat (rat_mean g)"
proof -
  assume g: "g \<noteq> []"
  let ?s = "sum_list g" and ?n = "int (length g)"
  have n: "0 < ?n" using g by simp
  have fl: "\<lfloor>(of_int ?s :: rat) / of_int ?n\<rfloor> = ?s div ?n"
    by (rule floor_divide_of_int_eq)
  have "\<lceil>(of_int ?s :: rat) / of_int ?n\<rceil> = - \<lfloor>- ((of_int ?s :: rat) / of_int ?n)\<rfloor>"
    by (simp add: ceiling_def)
  also have "- ((of_int ?s :: rat) / of_int ?n) = of_int (- ?s) / of_int ?n" by simp
  also have "\<lfloor>(of_int (- ?s) :: rat) / of_int ?n\<rfloor> = (- ?s) div ?n"
    by (rule floor_divide_of_int_eq)
  finally have ce: "\<lceil>(of_int ?s :: rat) / of_int ?n\<rceil> = - ((- ?s) div ?n)" .
  have sign: "0 \<le> (of_int ?s :: rat) / of_int ?n \<longleftrightarrow> 0 \<le> ?s"
    using n by (simp add: zero_le_divide_iff)
  show ?thesis
    unfolding int_mean_def truncate_rat_def rat_mean_def Let_def
    using fl ce sign by simp
qed

text \<open>
  C6, as amended. \<open>group_coords\<close> is the greedy pass over the sorted values that starts
  a new bin exactly when the gap from the incoming value to the last member of the last
  bin exceeds the inaccuracy threshold, and each emitted center is the mean of the bin
  truncated towards zero.
\<close>

theorem group_coords_chain_split:
  "group_coords vals =
     map (\<lambda>g. truncate_rat (rat_mean g)) (chain_split inaccuracy_threshold (sort vals))"
proof -
  have "map int_mean (chain_split inaccuracy_threshold (sort vals)) =
        map (\<lambda>g. truncate_rat (rat_mean g)) (chain_split inaccuracy_threshold (sort vals))"
    by (rule map_cong [OF refl]) (simp add: int_mean_truncate_rat chain_split_nonempty)
  then show ?thesis by (simp add: group_coords_chain)
qed

text \<open>
  The claim as stated fails: on \<open>[0, 4, 8]\<close> the source builds one bin (each value is
  within 5 of the one before it) where the running-mean reference builds two, and on
  \<open>[0, 1]\<close> the source emits the truncated center 0 where the mean is 1/2.
\<close>

theorem group_coords_running_mean_counterexample:
  "map of_int (group_coords [0, 4, 8]) \<noteq> running_mean_reference 5 [0, 4, 8]
   \<and> map of_int (group_coords [0, 1]) \<noteq> running_mean_reference 5 [0, 1]"
  by (simp add: group_coords_def inaccuracy_threshold_def int_mean_def
      running_mean_reference_def rat_mean_def)

section \<open>Properties of the grid renderer\<close>

lemma placements_lower:
  "(p, t) \<in> set (placements cols ws c) \<Longrightarrow> c + format__min_gap \<le> p"
proof (induction ws arbitrary: c)
  case Nil
  then show ?case by simp
next
  case (Cons w ws)
  obtain xi tx where w: "w = (xi, tx)" by (cases w)
  let ?a = "max (c + format__min_gap) (dict_get cols xi c)"
  from Cons.prems w have "(p, t) = (?a, tx) \<or> (p, t) \<in> set (placements cols ws (?a + length tx))"
    by (simp add: Let_def)
  then show ?case
  proof
    assume "(p, t) = (?a, tx)"
    then show ?thesis by simp
  next
    assume "(p, t) \<in> set (placements cols ws (?a + length tx))"
    from Cons.IH [OF this] show ?thesis by simp
  qed
qed

lemma placements_sorted:
  "sorted_wrt (\<lambda>a b. fst a + length (snd a) + format__min_gap \<le> fst b) (placements cols ws c)"
proof (induction ws arbitrary: c)
  case Nil
  then show ?case by simp
next
  case (Cons w ws)
  obtain xi tx where w: "w = (xi, tx)" by (cases w)
  let ?a = "max (c + format__min_gap) (dict_get cols xi c)"
  have "\<forall>b\<in>set (placements cols ws (?a + length tx)). ?a + length tx + format__min_gap \<le> fst b"
    using placements_lower by (metis prod.collapse)
  with Cons.IH [of "?a + length tx"] w show ?case by (simp add: Let_def)
qed

lemma words_loop_placements:
  "words_loop cols ws (line, c) =
     (foldl (\<lambda>l (p, t). place_text l p 0 t) line (placements cols ws c),
      (case placements cols ws c of [] \<Rightarrow> c | ps \<Rightarrow> fst (last ps) + length (snd (last ps))))"
proof (induction ws arbitrary: line c)
  case Nil
  then show ?case by simp
next
  case (Cons w ws)
  obtain xi tx where w: "w = (xi, tx)" by (cases w)
  show ?case
    unfolding w by (simp add: Let_def Cons.IH split: list.splits)
qed

lemma length_place_text: "length (place_text line p i t) = length line"
  by (induction t arbitrary: line i) simp_all

lemma length_words_loop: "length (fst (words_loop cols ws (line, c))) = length line"
proof (induction ws arbitrary: line c)
  case Nil
  then show ?case by simp
next
  case (Cons w ws)
  obtain xi tx where w: "w = (xi, tx)" by (cases w)
  show ?case unfolding w by (simp add: Let_def Cons.IH length_place_text)
qed

lemma place_text_take:
  "place_text line p i t = place_text line p i (take (format__line_length - (p + i)) t)"
proof (induction t arbitrary: line i)
  case Nil
  then show ?case by simp
next
  case (Cons ch t)
  show ?case
  proof (cases "p + i < format__line_length")
    case True
    then obtain k where k: "format__line_length - (p + i) = Suc k" 
      by (metis Suc_diff_Suc)
    then have k': "format__line_length - (p + (i + 1)) = k" by simp
    show ?thesis using True k Cons.IH [of "line[p + i := ch]" "i + 1"] k' by simp
  next
    case False
    then have z: "format__line_length - (p + i) = 0" "format__line_length - (p + (i + 1)) = 0" by simp_all
    show ?thesis using False z Cons.IH [of line "i + 1"] by simp
  qed
qed

lemma length_py_rstrip: "length (py_rstrip s) \<le> length s"
  unfolding py_rstrip_def using length_dropWhile_le [of py_isspace "rev s"] by simp

lemma length_render_line: "length (render_line cols ws) \<le> format__line_length"
  unfolding render_line_def Let_def
  using length_py_rstrip [of "fst (words_loop cols (py_sorted fst ws) (replicate format__line_length 32, 0))"]
  by (simp add: length_words_loop)

lemma formatted_lines_length:
  "l \<in> set (formatted_lines_of df) \<Longrightarrow> length l \<le> format__line_length"
  unfolding formatted_lines_of_def Let_def using length_render_line by auto

lemma place_text_nth:
  "q < length line \<Longrightarrow>
     place_text line p i t ! q =
       (if p + i \<le> q \<and> q < p + i + length t \<and> q < format__line_length
        then t ! (q - (p + i)) else line ! q)"
proof (induction t arbitrary: line i)
  case Nil
  then show ?case by simp
next
  case (Cons ch t)
  let ?line = "if p + i < format__line_length then line[p + i := ch] else line"
  have len: "q < length ?line" using Cons.prems by simp
  have "place_text line p i (ch # t) ! q = place_text ?line p (i + 1) t ! q" by simp
  also have "\<dots> = (if p + (i + 1) \<le> q \<and> q < p + (i + 1) + length t \<and> q < format__line_length
        then t ! (q - (p + (i + 1))) else ?line ! q)"
    by (rule Cons.IH [OF len])
  also have "\<dots> = (if p + i \<le> q \<and> q < p + i + length (ch # t) \<and> q < format__line_length
        then (ch # t) ! (q - (p + i)) else line ! q)"
    using Cons.prems by (auto simp: nth_Cons' nth_list_update)
  finally show ?case .
qed

lemma words_loop_frame:
  "q < c + format__min_gap \<Longrightarrow> q < length line \<Longrightarrow>
     fst (words_loop cols ws (line, c)) ! q = line ! q"
proof (induction ws arbitrary: line c)
  case Nil
  then show ?case by simp
next
  case (Cons w ws)
  obtain xi tx where w: "w = (xi, tx)" by (cases w)
  let ?a = "max (c + format__min_gap) (dict_get cols xi c)"
  have "fst (words_loop cols (w # ws) (line, c))
          = fst (words_loop cols ws (place_text line ?a 0 tx, ?a + length tx))"
    unfolding w by (simp add: Let_def)
  also have "\<dots> ! q = place_text line ?a 0 tx ! q"
    using Cons.prems by (intro Cons.IH) (simp_all add: length_place_text)
  also have "\<dots> = line ! q"
    using Cons.prems by (simp add: place_text_nth)
  finally show ?case .
qed

lemma words_loop_keeps_text:
  "(p, t) \<in> set (placements cols ws c) \<Longrightarrow> k < length t \<Longrightarrow> p + k < format__line_length \<Longrightarrow>
     length line = format__line_length \<Longrightarrow>
     fst (words_loop cols ws (line, c)) ! (p + k) = t ! k"
proof (induction ws arbitrary: line c)
  case Nil
  then show ?case by simp
next
  case (Cons w ws)
  obtain xi tx where w: "w = (xi, tx)" by (cases w)
  let ?a = "max (c + format__min_gap) (dict_get cols xi c)"
  let ?line = "place_text line ?a 0 tx"
  have step: "fst (words_loop cols (w # ws) (line, c))
          = fst (words_loop cols ws (?line, ?a + length tx))"
    unfolding w by (simp add: Let_def)
  have len: "length ?line = format__line_length"
    using Cons.prems(4) by (simp add: length_place_text)
  from Cons.prems(1) w
  have "(p, t) = (?a, tx) \<or> (p, t) \<in> set (placements cols ws (?a + length tx))"
    by (simp add: Let_def)
  then show ?case
  proof
    assume eq: "(p, t) = (?a, tx)"
    have "fst (words_loop cols ws (?line, ?a + length tx)) ! (p + k) = ?line ! (p + k)"
      using eq Cons.prems(2,3) len by (intro words_loop_frame) simp_all
    also have "\<dots> = t ! k"
      using eq Cons.prems(2,3,4) by (simp add: place_text_nth)
    finally show ?thesis using step by simp
  next
    assume "(p, t) \<in> set (placements cols ws (?a + length tx))"
    from Cons.IH [OF this Cons.prems(2,3) len] step show ?thesis by simp
  qed
qed

text \<open>
  C4. In the order the renderer places the words of a line, a later word starts at
  least \<open>min_gap = 2\<close> characters behind the end of every earlier word; the line the loop
  builds is the result of writing the words at these offsets, and every character of a
  word that falls on the line is still there when the line is finished.
\<close>

theorem grid_words_never_overlap:
  "fst (words_loop cols ws (line, c))
     = foldl (\<lambda>l (p, t). place_text l p 0 t) line (placements cols ws c)
   \<and> (i < j \<and> j < length (placements cols ws c) \<longrightarrow>
        fst (placements cols ws c ! i) + length (snd (placements cols ws c ! i)) + 2
          \<le> fst (placements cols ws c ! j))
   \<and> ((p, t) \<in> set (placements cols ws c) \<and> k < length t \<and> p + k < 200 \<and> length line = 200 \<longrightarrow>
        fst (words_loop cols ws (line, c)) ! (p + k) = t ! k)"
proof (intro conjI impI)
  show "fst (words_loop cols ws (line, c))
     = foldl (\<lambda>l (p, t). place_text l p 0 t) line (placements cols ws c)"
    by (simp add: words_loop_placements)
next
  assume "i < j \<and> j < length (placements cols ws c)"
  then show "fst (placements cols ws c ! i) + length (snd (placements cols ws c ! i)) + 2
          \<le> fst (placements cols ws c ! j)"
    using placements_sorted [of cols ws c]
    by (simp add: sorted_wrt_iff_nth_less format__min_gap_def)
next
  assume "(p, t) \<in> set (placements cols ws c) \<and> k < length t \<and> p + k < 200 \<and> length line = 200"
  then show "fst (words_loop cols ws (line, c)) ! (p + k) = t ! k"
    using words_loop_keeps_text [of p t cols ws c k line]
    by (simp add: format__line_length_def)
qed

theorem grid_words_never_overlap_witness:
  "placements [(Num 0, 0), (Num 1, 6)] [(Num 0, [78, 97, 109, 101]), (Num 1, [65, 103, 101])] 0
     = [(2, [78, 97, 109, 101]), (8, [65, 103, 101])]
   \<and> (2::nat) + length [78, 97, 109, 101 :: nat] + 2 \<le> 8
   \<and> fst (words_loop [(Num 0, 0), (Num 1, 6)]
            [(Num 0, [78, 97, 109, 101]), (Num 1, [65, 103, 101])] (replicate 200 32, 0)) ! (2 + 1)
       = 97"
proof -
  let ?cols = "[(Num 0, 0), (Num 1, 6 :: nat)]"
  let ?ws = "[(Num 0, [78, 97, 109, 101 :: nat]), (Num 1, [65, 103, 101])]"
  have ps: "placements ?cols ?ws 0 = [(2, [78, 97, 109, 101]), (8, [65, 103, 101])]"
    by (simp add: format__min_gap_def Let_def)
  have h1: "(0::nat) < 1 \<and> 1 < length (placements ?cols ?ws 0)"
    unfolding ps by simp
  have h2: "(2, [78, 97, 109, 101]) \<in> set (placements ?cols ?ws 0) \<and> 1 < length [78, 97, 109, 101 :: nat]
      \<and> 2 + 1 < (200::nat) \<and> length (replicate 200 (32::nat)) = 200"
    unfolding ps by simp
  show ?thesis
    using grid_words_never_overlap [of ?cols ?ws "replicate 200 32" 0 0 1 2 "[78, 97, 109, 101]" 1]
      h1 h2 ps
    by (simp add: format__min_gap_def)
qed

text \<open>
  C10. Every line the renderer returns has at most 200 characters; the line buffer keeps
  its 200 cells whatever is placed, and placing a word writes only the characters whose
  offset is below 200, so that the others do not reach the output. The renderer has no
  failing branch.
\<close>

theorem rendered_lines_bounded:
  "(l \<in> set (formatted_lines_of df) \<longrightarrow> length l \<le> 200)
   \<and> length (fst (words_loop cols ws (replicate format__line_length 32, c))) = 200
   \<and> place_text line actual_pos 0 tx = place_text line actual_pos 0 (take (200 - actual_pos) tx)"
  using formatted_lines_length [of l df] length_words_loop [of cols ws "replicate format__line_length 32" c]
    place_text_take [of line actual_pos 0 tx]
  by (simp add: format__line_length_def)

theorem rendered_lines_bounded_witness:
  "[32, 32, 78, 97, 109, 101, 32, 32, 65, 103, 101]
     \<in> set (formatted_lines_of
         [\<lparr>c_x = 0, c_y = 0, c_text = [78, 97, 109, 101], y_bin = 0, x_bin = 0,
            y_index = Num 0, x_index = Num 0\<rparr>,
          \<lparr>c_x = 50, c_y = 0, c_text = [65, 103, 101], y_bin = 0, x_bin = 50,
            y_index = Num 0, x_index = Num 1\<rparr>])
   \<and> length [32, 32, 78, 97, 109, 101, 32, 32, 65, 103, 101 :: nat] \<le> 200
   \<and> place_text (replicate 200 32) 198 0 [78, 97, 109, 101]
       = place_text (replicate 200 32) 198 0 [78, 97]"
proof -
  let ?df = "[\<lparr>c_x = 0, c_y = 0, c_text = [78, 97, 109, 101], y_bin = 0, x_bin = 0,
            y_index = Num 0, x_index = Num 0\<rparr>,
          \<lparr>c_x = 50, c_y = 0, c_text = [65, 103, 101], y_bin = 0, x_bin = 50,
            y_index = Num 0, x_index = Num 1\<rparr>]"
  have m: "[32, 32, 78, 97, 109, 101, 32, 32, 65, 103, 101] \<in> set (formatted_lines_of ?df)"
    by code_simp
  show ?thesis
    using rendered_lines_bounded [of "[32, 32, 78, 97, 109, 101, 32, 32, 65, 103, 101]" ?df
        "[]" "[]" 0 "replicate 200 32" 198 "[78, 97, 109, 101]"] m
    by simp
qed

section \<open>Properties of the page stitching and of the OCR path\<close>

lemma parse_pdf_and_format_join:
  "parse_pdf_and_format pdf_pages = (all_dfs, pages, full_text) \<Longrightarrow>
     full_text = py_join page_delimiter pages"
  by (auto simp: parse_pdf_and_format_def split: prod.splits)

lemma TextualParser_join:
  "TextualParser file = Inr p \<Longrightarrow> raw_text p = py_join page_delimiter (pages_text p)"
  by (auto simp: TextualParser_def parse_pdf_and_format_def split: sum.splits prod.splits)

lemma images_loop_text:
  assumes "images_loop lower images (text0, n0, pts0) = (text1, n1, pts1)"
      and "text0 = concat (map (\<lambda>p. p @ page_delimiter) pts0)"
  shows "text1 = concat (map (\<lambda>p. p @ page_delimiter) pts1)"
  using assms
proof (induction images arbitrary: text0 n0 pts0)
  case Nil
  then show ?case by auto
next
  case (Cons img images)
  show ?case
  proof (cases "image_text lower img")
    case (Inl e)
    with Cons.prems have "images_loop lower images (text0, n0, pts0) = (text1, n1, pts1)"
      by simp
    from Cons.IH [OF this Cons.prems(2)] show ?thesis .
  next
    case (Inr img_text)
    show ?thesis
    proof (cases "n0 + 1 = max_pages_ingestion")
      case True
      with Inr Cons.prems show ?thesis by (auto simp: Let_def)
    next
      case False
      with Inr Cons.prems
      have "images_loop lower images (text0 @ img_text @ page_delimiter, n0 + 1, pts0 @ [img_text])
              = (text1, n1, pts1)"
        by (simp add: Let_def)
      moreover have "text0 @ img_text @ page_delimiter
          = concat (map (\<lambda>p. p @ page_delimiter) (pts0 @ [img_text]))"
        using Cons.prems(2) by simp
      ultimately show ?thesis by (rule Cons.IH)
    qed
  qed
qed

lemma VisualParser_text:
  "raw_text (VisualParser lower file)
     = concat (map (\<lambda>p. p @ page_delimiter) (pages_text (VisualParser lower file)))"
proof -
  let ?images = "case file of Inl e \<Rightarrow> [] | Inr imgs \<Rightarrow> imgs"
  obtain text1 n1 pts1 where r: "images_loop lower ?images ([], 0, []) = (text1, n1, pts1)"
    by (cases "images_loop lower ?images ([], 0, [])") auto
  from images_loop_text [OF r] have "text1 = concat (map (\<lambda>p. p @ page_delimiter) pts1)" by simp
  with r show ?thesis
    by (simp add: VisualParser_def read_text_from_images_def Let_def)
qed

text \<open>
  C2, on a one-page OCR document whose page reads \<open>a\<close>: the page list is \<open>[a]\<close>, and the
  returned text is \<open>a\<close> followed by the delimiter, where joining the page list with the
  delimiter gives \<open>a\<close>. The native-text path joins (\<open>TextualParser_join\<close>); the OCR path
  ends every page with the delimiter (\<open>VisualParser_text\<close>).
\<close>

theorem visual_parser_trailing_delimiter:
  "pages_text (VisualParser (\<lambda>s. s) (Inr [\<lparr>image_to_data = Inr [], image_to_string = Inr [97]\<rparr>]))
     = [[97]]
   \<and> raw_text (VisualParser (\<lambda>s. s) (Inr [\<lparr>image_to_data = Inr [], image_to_string = Inr [97]\<rparr>]))
     = [97] @ page_delimiter
   \<and> py_join page_delimiter [[97]] = [97]
   \<and> [97] @ page_delimiter \<noteq> [97]"
  by (simp add: VisualParser_def read_text_from_images_def image_text_def usable_rows_def
      py_strip_def py_rstrip_def py_isspace_def max_pages_ingestion_def Let_def
      page_delimiter_def)

text \<open>
  C3, on a document of three pages of which the second has no words: the maximum of the
  empty \<open>y_index\<close> column is NaN, the offset after the blank page is NaN, and the word of
  the third page gets the row index NaN, which is not greater than the row index 0 of the
  first page.
\<close>

theorem blank_page_breaks_row_offset:
  "map (map y_index) (fst (parse_pdf_and_format
     [Inr [\<lparr>w_text = [97], x0 = 0, x1 = 5, w_top = 0, bottom = 10\<rparr>],
      Inr [],
      Inr [\<lparr>w_text = [98], x0 = 0, x1 = 5, w_top = 0, bottom = 10\<rparr>]]))
   = [[Num 0], [], [NaN]]
   \<and> \<not> py_lt (Num 0) NaN"
  by code_simp

lemma length_usable_rows:
  "length (usable_rows data)
     = length (filter (\<lambda>r. o_conf r \<noteq> - 1 \<and> o_text r \<noteq> None) data)"
  unfolding usable_rows_def
  by (induction data) (auto split: option.splits)

text \<open>
  C7. When the word-box table of a page, without the rows of confidence -1 and the rows
  of null text, has fewer than 10 rows, the page text is the transcription, stripped and
  then lower-cased, whatever the table holds (an exception of the transcription skips the
  page); with 10 rows or more it is the line reconstruction of those rows.
\<close>

theorem ocr_degraded_path:
  assumes "image_to_data img = Inr data"
  shows "(length (filter (\<lambda>r. o_conf r \<noteq> - 1 \<and> o_text r \<noteq> None) data) < 10 \<longrightarrow>
            image_text lower img
              = (case image_to_string img of Inl e \<Rightarrow> Inl e | Inr s \<Rightarrow> Inr (lower (py_strip s))))
       \<and> (10 \<le> length (filter (\<lambda>r. o_conf r \<noteq> - 1 \<and> o_text r \<noteq> None) data) \<longrightarrow>
            image_text lower img = Inr (reconstruct_text_from_df (usable_rows data)))"
  using assms by (simp add: image_text_def Let_def length_usable_rows)

theorem ocr_degraded_path_witness:
  "image_text (map (\<lambda>c. if 65 \<le> c \<and> c \<le> 90 then c + 32 else c))
     \<lparr>image_to_data = Inr [\<lparr>o_text = Some [72, 105], o_left = 3, o_top = 7, o_conf = 90\<rparr>,
                            \<lparr>o_text = None, o_left = 3, o_top = 7, o_conf = 90\<rparr>,
                            \<lparr>o_text = Some [72, 105], o_left = 3, o_top = 7, o_conf = - 1\<rparr>],
      image_to_string = Inr [32, 72, 105, 10]\<rparr>
     = Inr [104, 105]
   \<and> image_text (map (\<lambda>c. if 65 \<le> c \<and> c \<le> 90 then c + 32 else c))
     \<lparr>image_to_data =
        Inr [\<lparr>o_text = Some [72], o_left = 3, o_top = 7, o_conf = 90\<rparr>,
             \<lparr>o_text = Some [73], o_left = 1, o_top = 9, o_conf = 90\<rparr>,
             \<lparr>o_text = Some [74], o_left = 5, o_top = 7, o_conf = 90\<rparr>,
             \<lparr>o_text = Some [75], o_left = 7, o_top = 7, o_conf = 90\<rparr>,
             \<lparr>o_text = Some [76], o_left = 9, o_top = 7, o_conf = 90\<rparr>,
             \<lparr>o_text = Some [89, 32], o_left = 1, o_top = 30, o_conf = 90\<rparr>,
             \<lparr>o_text = Some [90], o_left = 3, o_top = 30, o_conf = 90\<rparr>,
             \<lparr>o_text = Some [65], o_left = 5, o_top = 30, o_conf = 90\<rparr>,
             \<lparr>o_text = Some [66], o_left = 7, o_top = 30, o_conf = 90\<rparr>,
             \<lparr>o_text = Some [67], o_left = 9, o_top = 30, o_conf = 90\<rparr>],
      image_to_string = Inr [32, 72, 105, 10]\<rparr>
     = Inr [73, 32, 72, 32, 74, 32, 75, 32, 76, 10, 89, 32, 90, 32, 65, 32, 66, 32, 67]"
proof -
  let ?lower = "map (\<lambda>c::nat. if 65 \<le> c \<and> c \<le> 90 then c + 32 else c)"
  let ?few = "[\<lparr>o_text = Some [72, 105], o_left = 3, o_top = 7, o_conf = 90\<rparr>,
               \<lparr>o_text = None, o_left = 3, o_top = 7, o_conf = 90\<rparr>,
               \<lparr>o_text = Some [72, 105], o_left = 3, o_top = 7, o_conf = - 1\<rparr>]"
  let ?many = "[\<lparr>o_text = Some [72], o_left = 3, o_top = 7, o_conf = 90\<rparr>,
             \<lparr>o_text = Some [73], o_left = 1, o_top = 9, o_conf = 90\<rparr>,
             \<lparr>o_text = Some [74], o_left = 5, o_top = 7, o_conf = 90\<rparr>,
             \<lparr>o_text = Some [75], o_left = 7, o_top = 7, o_conf = 90\<rparr>,
             \<lparr>o_text = Some [76], o_left = 9, o_top = 7, o_conf = 90\<rparr>,
             \<lparr>o_text = Some [89, 32], o_left = 1, o_top = 30, o_conf = 90\<rparr>,
             \<lparr>o_text = Some [90], o_left = 3, o_top = 30, o_conf = 90\<rparr>,
             \<lparr>o_text = Some [65], o_left = 5, o_top = 30, o_conf = 90\<rparr>,
             \<lparr>o_text = Some [66], o_left = 7, o_top = 30, o_conf = 90\<rparr>,
             \<lparr>o_text = Some [67], o_left = 9, o_top = 30, o_conf = 90\<rparr>]"
  let ?img1 = "\<lparr>image_to_data = Inr ?few, image_to_string = Inr [32, 72, 105, 10]\<rparr>"
  let ?img2 = "\<lparr>image_to_data = Inr ?many, image_to_string = Inr [32, 72, 105, 10]\<rparr>"
  have d1: "image_to_data ?img1 = Inr ?few" and d2: "image_to_data ?img2 = Inr ?many"
    by simp_all
  have s1: "image_to_string ?img1 = Inr [32, 72, 105, 10]" by simp
  have few: "length (filter (\<lambda>r. o_conf r \<noteq> - 1 \<and> o_text r \<noteq> None) ?few) < 10"
    by simp
  have many: "10 \<le> length (filter (\<lambda>r. o_conf r \<noteq> - 1 \<and> o_text r \<noteq> None) ?many)"
    by simp
  have strip: "?lower (py_strip [32, 72, 105, 10]) = [104, 105]"
    by (simp add: py_strip_def py_rstrip_def py_isspace_def)
  have rec: "reconstruct_text_from_df (usable_rows ?many)
      = [73, 32, 72, 32, 74, 32, 75, 32, 76, 10, 89, 32, 90, 32, 65, 32, 66, 32, 67]"
    by (simp add: usable_rows_def reconstruct_text_from_df_def py_strip_def py_rstrip_def
        py_isspace_def format__line_tol_def Let_def)
  have "image_text ?lower ?img1 = Inr (?lower (py_strip [32, 72, 105, 10]))"
    using ocr_degraded_path [OF d1, of ?lower] few unfolding s1 by simp
  moreover have "image_text ?lower ?img2 = Inr (reconstruct_text_from_df (usable_rows ?many))"
    using ocr_degraded_path [OF d2, of ?lower] many by blast
  ultimately show ?thesis
    unfolding strip rec by blast
qed

end
